theory Spec2Isabelle
  imports Main
begin

section \<open>Python strings\<close>

text \<open>
  A Python \<open>str\<close> is a sequence of Unicode code points. It is modelled as a list of
  natural numbers, one per code point; \<open>lit\<close> turns an ASCII literal of the source into
  such a list.
\<close>

type_synonym str = "nat list"

definition lit :: "string \<Rightarrow> str" where
  "lit s = map of_char s"

definition dollar :: nat where
  "dollar = 36"

text \<open>
  \<open>str.strip()\<close> without an argument removes leading and trailing white space. CPython
  counts as white space the code points of general category Zs or of bidirectional class
  WS, B or S: U+0009..U+000D, U+001C..U+0020, U+0085, U+00A0, U+1680, U+2000..U+200A,
  U+2028, U+2029, U+202F, U+205F and U+3000.
\<close>

definition isspace :: "nat \<Rightarrow> bool" where
  "isspace c \<longleftrightarrow>
     (9 \<le> c \<and> c \<le> 13) \<or> (28 \<le> c \<and> c \<le> 32) \<or> c = 133 \<or> c = 160 \<or> c = 5760 \<or>
     (8192 \<le> c \<and> c \<le> 8202) \<or> c = 8232 \<or> c = 8233 \<or> c = 8239 \<or> c = 8287 \<or> c = 12288"

definition strip :: "str \<Rightarrow> str" where
  "strip s = rev (dropWhile isspace (rev (dropWhile isspace s)))"

text \<open>
  \<open>s.split(sep)\<close> for a separator of one code point: the pieces between the occurrences
  of the separator, empty pieces included, so the result always has one element more than
  the string has separators (\<open>"".split("$")\<close> is \<open>[""]\<close>).
\<close>

fun str_split :: "nat \<Rightarrow> str \<Rightarrow> str list" where
  "str_split sep [] = [[]]"
| "str_split sep (c # cs) =
     (if c = sep then [] # str_split sep cs
      else (case str_split sep cs of
              [] \<Rightarrow> [[c]]
            | p # ps \<Rightarrow> (c # p) # ps))"

text \<open>
  \<open>str.lower()\<close>. An ASCII code point is mapped by the ASCII rule. The lower-case form
  of any other code point comes from the Unicode tables of the Python runtime (one to
  three code points, and for U+03A3 it depends on the neighbours), so it is a parameter
  \<open>ucd\<close>: given the whole string and a position, the lower-case form of the code point
  at that position.
\<close>

definition ascii_lower :: "nat \<Rightarrow> nat" where
  "ascii_lower c = (if 65 \<le> c \<and> c \<le> 90 then c + 32 else c)"

fun lower_from :: "(str \<Rightarrow> nat \<Rightarrow> str) \<Rightarrow> str \<Rightarrow> nat \<Rightarrow> str \<Rightarrow> str" where
  "lower_from ucd s i [] = []"
| "lower_from ucd s i (c # cs) =
     (if c < 128 then [ascii_lower c] else ucd s i) @ lower_from ucd s (Suc i) cs"

definition lower :: "(str \<Rightarrow> nat \<Rightarrow> str) \<Rightarrow> str \<Rightarrow> str" where
  "lower ucd s = lower_from ucd s 0 s"

section \<open>The hash formatter and the field parser\<close>

text \<open>
  \<^verbatim>\<open>
  def format_asreq_hash(username, domain, cipher, fmt):
      if fmt.lower() == "john":
          return f"$krb5pa$18${username}${domain}$${cipher}"
      return f"$krb5pa$18${username}${domain}${cipher}"
  \<close>
\<close>

definition format_asreq_hash ::
  "(str \<Rightarrow> nat \<Rightarrow> str) \<Rightarrow> str \<Rightarrow> str \<Rightarrow> str \<Rightarrow> str \<Rightarrow> str" where
  "format_asreq_hash ucd username domain cipher fmt =
     (if lower ucd fmt = lit ''john''
      then lit ''$krb5pa$18$'' @ username @ lit ''$'' @ domain @ lit ''$$'' @ cipher
      else lit ''$krb5pa$18$'' @ username @ lit ''$'' @ domain @ lit ''$'' @ cipher)"

text \<open>
  \<^verbatim>\<open>
  def parse_asreq_line(line):
      parts = line.strip().split("$")
      if len(parts) != 3:
          return None
      username, domain, cipher = parts
      if not username or not domain or not cipher:
          return None
      return username, domain, cipher
  \<close>
\<close>

definition parse_asreq_line :: "str \<Rightarrow> (str \<times> str \<times> str) option" where
  "parse_asreq_line line =
     (case str_split dollar (strip line) of
        [username, domain, cipher] \<Rightarrow>
          if username = [] \<or> domain = [] \<or> cipher = [] then None
          else Some (username, domain, cipher)
      | _ \<Rightarrow> None)"

section \<open>The environment\<close>

text \<open>
  What the program takes from the Python runtime and the operating system and the source
  does not define. \<open>'p\<close> is the type of file-system paths (\<open>pathlib.Path\<close>), compared by
  the file they name.
  \<^item> \<open>ucd_lower\<close>: the lower-case table behind \<open>str.lower()\<close> (see \<open>lower\<close>);
  \<^item> \<open>truediv\<close>: \<open>path / name\<close>;
  \<^item> \<open>parents\<close>: the ancestors of a path, which \<open>mkdir(parents=True)\<close> creates;
  \<^item> \<open>path_str\<close>: \<open>str(path)\<close>;
  \<^item> \<open>now\<close>: the \<open>k\<close>-th reading of the clock, already formatted by
    \<open>strftime("%Y-%m-%d %H:%M:%S")\<close>.
\<close>

record 'p runtime =
  ucd_lower :: "str \<Rightarrow> nat \<Rightarrow> str"
  truediv :: "'p \<Rightarrow> str \<Rightarrow> 'p"
  parents :: "'p \<Rightarrow> 'p list"
  path_str :: "'p \<Rightarrow> str"
  now :: "nat \<Rightarrow> str"

text \<open>
  The world the program acts on.
  \<^item> \<open>files\<close>: the regular files and their contents; \<open>dirs\<close>: the directories.
  \<^item> \<open>appendable\<close>: whether \<open>open(p, "a")\<close> succeeds on a path (the directory exists,
    permissions allow it, ...); \<open>mkdir_ok\<close>: the same for creating a directory. Nothing
    the capture loop does changes these answers.
  \<^item> \<open>console\<close>: the arguments of the \<open>print\<close> calls on standard output, in order.
  \<^item> \<open>clock\<close>: how many times the clock has been read.
  \<^item> \<open>procs\<close>: the process table, each process id with its process group.
  \<^item> \<open>sigterm\<close>: the processes with a SIGTERM pending or delivered. Standard signals
    do not queue, so this is a set.
\<close>

record 'p world =
  files :: "'p \<Rightarrow> str option"
  dirs :: "'p set"
  appendable :: "'p \<Rightarrow> bool"
  mkdir_ok :: "'p \<Rightarrow> bool"
  console :: "str list"
  clock :: nat
  procs :: "(nat \<times> nat) list"
  sigterm :: "nat set"

datatype error = OSError | ProcessLookupError | AssertionError

definition newline :: str where
  "newline = [10]"

definition py_print :: "'p world \<Rightarrow> str \<Rightarrow> 'p world" where
  "py_print w s = w\<lparr>console := console w @ [s]\<rparr>"

text \<open>
  \<^verbatim>\<open>with p.open("a", encoding="utf-8") as f: f.write(text)\<close>: the file is created
  when it does not exist, and the text goes to its end. A failure raises \<open>OSError\<close>;
  the model places it at the opening of the file, so a failed append leaves the file
  system as it was.
\<close>

definition append_text :: "'p world \<Rightarrow> 'p \<Rightarrow> str \<Rightarrow> error + 'p world" where
  "append_text w p text =
     (if appendable w p
      then Inr (w\<lparr>files := (files w)(p \<mapsto> (case files w p of None \<Rightarrow> [] | Some old \<Rightarrow> old) @ text)\<rparr>)
      else Inl OSError)"

text \<open>
  \<open>path.mkdir(parents=True, exist_ok=True)\<close>: an existing directory is accepted, a
  regular file of that name is an error.
\<close>

definition mkdir_parents :: "'p runtime \<Rightarrow> 'p world \<Rightarrow> 'p \<Rightarrow> error + 'p world" where
  "mkdir_parents rt w path =
     (if files w path \<noteq> None \<or> \<not> mkdir_ok w path then Inl OSError
      else Inr (w\<lparr>dirs := dirs w \<union> insert path (set (parents rt path))\<rparr>))"

text \<open>\<open>os.getpgid\<close>, \<open>os.killpg\<close> with SIGTERM, \<open>Popen.poll\<close> and \<open>Popen.terminate\<close>.\<close>

definition os_getpgid :: "'p world \<Rightarrow> nat \<Rightarrow> error + nat" where
  "os_getpgid w pid = (case map_of (procs w) pid of None \<Rightarrow> Inl ProcessLookupError | Some g \<Rightarrow> Inr g)"

definition os_killpg :: "'p world \<Rightarrow> nat \<Rightarrow> error + 'p world" where
  "os_killpg w g =
     (if g \<in> snd ` set (procs w)
      then Inr (w\<lparr>sigterm := sigterm w \<union> set (map fst (filter (\<lambda>(pid, g'). g' = g) (procs w)))\<rparr>)
      else Inl ProcessLookupError)"

definition poll_is_None :: "'p world \<Rightarrow> nat \<Rightarrow> bool" where
  "poll_is_None w pid \<longleftrightarrow> map_of (procs w) pid \<noteq> None"

definition terminate :: "'p world \<Rightarrow> nat \<Rightarrow> 'p world" where
  "terminate w pid = (if poll_is_None w pid then w\<lparr>sigterm := insert pid (sigterm w)\<rparr> else w)"

section \<open>The output sink\<close>

text \<open>
  \<^verbatim>\<open>
  def ensure_output_dir(path, no_files):
      if not no_files:
          path.mkdir(parents=True, exist_ok=True)
          print(f"[+] Using output directory: {path}")
      else:
          print("[*] No output files will be created")
  \<close>
\<close>

definition ensure_output_dir :: "'p runtime \<Rightarrow> 'p world \<Rightarrow> 'p \<Rightarrow> bool \<Rightarrow> error + 'p world" where
  "ensure_output_dir rt w path no_files' =
     (if \<not> no_files' then
        (case mkdir_parents rt w path of
           Inl e \<Rightarrow> Inl e
         | Inr w' \<Rightarrow> Inr (py_print w' (lit ''[+] Using output directory: '' @ path_str rt path)))
      else Inr (py_print w (lit ''[*] No output files will be created'')))"

text \<open>
  \<^verbatim>\<open>
  def write_output(out_dir, username, domain, hash_str):
      user_file = out_dir / f"{username}_{domain}.txt"
      with user_file.open("a", encoding="utf-8") as f:
          f.write(f"{hash_str}\n")
  \<close>
\<close>

definition user_file :: "'p runtime \<Rightarrow> 'p \<Rightarrow> str \<Rightarrow> str \<Rightarrow> 'p" where
  "user_file rt out_dir' username domain = truediv rt out_dir' (username @ lit ''_'' @ domain @ lit ''.txt'')"

definition write_output :: "'p runtime \<Rightarrow> 'p world \<Rightarrow> 'p \<Rightarrow> str \<Rightarrow> str \<Rightarrow> str \<Rightarrow> error + 'p world" where
  "write_output rt w out_dir' username domain hash_str =
     append_text w (user_file rt out_dir' username domain) (hash_str @ newline)"

section \<open>The capture session\<close>

record 'p TsharkListener =
  interface :: str
  out_dir :: 'p
  no_files :: bool
  format :: str
  proc :: "nat option"
  stop :: bool
  all_hashes_file :: 'p

text \<open>\<open>TsharkListener.__init__\<close>: the format is stored in lower case.\<close>

definition TsharkListener_init :: "'p runtime \<Rightarrow> str \<Rightarrow> 'p \<Rightarrow> str \<Rightarrow> bool \<Rightarrow> 'p TsharkListener" where
  "TsharkListener_init rt interface' out_dir' fmt no_files' =
     \<lparr>interface = interface', out_dir = out_dir', no_files = no_files',
      format = lower (ucd_lower rt) fmt, proc = None, stop = False,
      all_hashes_file =
        truediv rt out_dir' (lit ''all_hashes_'' @ lower (ucd_lower rt) fmt @ lit ''.txt'')\<rparr>"

text \<open>
  \<^verbatim>\<open>
  def shutdown(self):
      self.stop = True
      if self.proc:
          try:
              os.killpg(os.getpgid(self.proc.pid), signal.SIGTERM)
          except Exception:
              pass
  \<close>
  The result is a sum so that an exception leaving \<open>shutdown\<close> would be a value \<open>Inl\<close>.
\<close>

definition shutdown :: "'p TsharkListener \<Rightarrow> 'p world \<Rightarrow> error + ('p TsharkListener \<times> 'p world)" where
  "shutdown L w =
     (let L' = L\<lparr>stop := True\<rparr> in
      case proc L' of
        None \<Rightarrow> Inr (L', w)
      | Some pid \<Rightarrow>
          (case (case os_getpgid w pid of Inl e \<Rightarrow> Inl e | Inr g \<Rightarrow> os_killpg w g) of
             Inl e \<Rightarrow> Inr (L', w)
           | Inr w' \<Rightarrow> Inr (L', w')))"

text \<open>
  The signal handler that \<open>main\<close> installs for SIGINT and SIGTERM:
  \<^verbatim>\<open>
  def handle_sigint(signum, frame):
      print("\n[!] Stopping listener...")
      listener.shutdown()
  \<close>
\<close>

definition handle_sigint :: "'p TsharkListener \<Rightarrow> 'p world \<Rightarrow> error + ('p TsharkListener \<times> 'p world)" where
  "handle_sigint L w = shutdown L (py_print w (newline @ lit ''[!] Stopping listener...''))"

text \<open>
  The body of the loop of \<open>run\<close> for one line, after the test of the stop flag:
  \<^verbatim>\<open>
  line = line.strip()
  if not line: continue
  parsed = parse_asreq_line(line)
  if not parsed: continue
  username, domain, cipher = parsed
  hash_str = format_asreq_hash(username, domain, cipher, self.format)
  ts = dt.datetime.now().strftime("%Y-%m-%d %H:%M:%S")
  print("[+] " + ts + " - Captured AS-REQ for " + username + "@" + domain)
  print(hash_str)
  if not self.no_files:
      write_output(self.out_dir, username, domain, hash_str)
      with self.all_hashes_file.open("a", encoding="utf-8") as f:
          f.write(f"{hash_str}\n")
  \<close>
  (the first \<open>print\<close> is written as an f-string in the source). The result is the
  exception raised, if any, and the world at that moment.
\<close>

definition process_line ::
  "'p runtime \<Rightarrow> 'p TsharkListener \<Rightarrow> 'p world \<Rightarrow> str \<Rightarrow> error option \<times> 'p world" where
  "process_line rt L w line0 =
     (let line = strip line0 in
      if line = [] then (None, w)
      else case parse_asreq_line line of
        None \<Rightarrow> (None, w)
      | Some (username, domain, cipher) \<Rightarrow>
          let hash_str = format_asreq_hash (ucd_lower rt) username domain cipher (format L);
              ts = now rt (clock w);
              w1 = w\<lparr>clock := Suc (clock w)\<rparr>;
              w2 = py_print w1 (lit ''[+] '' @ ts @ lit '' - Captured AS-REQ for '' @ username @ lit ''@'' @ domain);
              w3 = py_print w2 hash_str
          in if \<not> no_files L then
               (case write_output rt w3 (out_dir L) username domain hash_str of
                  Inl e \<Rightarrow> (Some e, w3)
                | Inr w4 \<Rightarrow>
                    (case append_text w4 (all_hashes_file L) (hash_str @ newline) of
                       Inl e \<Rightarrow> (Some e, w4)
                     | Inr w5 \<Rightarrow> (None, w5)))
             else (None, w3))"

text \<open>
  What arrives while the loop waits for the next line of the decoder: a line, or a signal
  (the handler then runs before the loop goes on). The stop flag is read only at the top
  of the loop, so a signal that arrives while a line is being processed acts on the loop
  as one that arrives right after that line.
\<close>

datatype event = Line str | Interrupt

text \<open>
  \<^verbatim>\<open>
  for line in self.proc.stdout:
      if self.stop:
          break
      ...
  \<close>
  An exception raised in the body leaves the loop; the end of the stream ends it.
\<close>

fun run_loop ::
  "'p runtime \<Rightarrow> event list \<Rightarrow> 'p TsharkListener \<Rightarrow> 'p world \<Rightarrow>
     error option \<times> 'p TsharkListener \<times> 'p world" where
  "run_loop rt [] L w = (None, L, w)"
| "run_loop rt (Interrupt # es) L w =
     (case handle_sigint L w of
        Inl e \<Rightarrow> (Some e, L, w)
      | Inr (L', w') \<Rightarrow> run_loop rt es L' w')"
| "run_loop rt (Line line # es) L w =
     (if stop L then (None, L, w)
      else case process_line rt L w line of
        (Some e, w') \<Rightarrow> (Some e, L, w')
      | (None, w') \<Rightarrow> run_loop rt es L w')"

text \<open>
  \<open>TsharkListener.run\<close>: the assertion, the loop, and after a loop that ended without
  an exception:
  \<^verbatim>\<open>
  if self.proc and self.proc.poll() is None:
      try:
          self.proc.terminate()
      except Exception:
          pass
  \<close>
\<close>

definition run ::
  "'p runtime \<Rightarrow> event list \<Rightarrow> 'p TsharkListener \<Rightarrow> 'p world \<Rightarrow>
     error option \<times> 'p TsharkListener \<times> 'p world" where
  "run rt es L w =
     (case proc L of
        None \<Rightarrow> (Some AssertionError, L, w)
      | Some pid0 \<Rightarrow>
          (case run_loop rt es L w of
             (Some e, L', w') \<Rightarrow> (Some e, L', w')
           | (None, L', w') \<Rightarrow>
               (case proc L' of
                  None \<Rightarrow> (None, L', w')
                | Some pid \<Rightarrow> (None, L', if poll_is_None w' pid then terminate w' pid else w'))))"

section \<open>Notions used in the statements\<close>

text \<open>
  The text of a file (empty when the file does not exist yet), the two console lines that
  the loop prints for a record when the clock is read for the \<open>k\<close>-th time, the console
  lines for a list of records, and the line that goes to the files for a record.
\<close>

definition contents :: "'p world \<Rightarrow> 'p \<Rightarrow> str" where
  "contents w p = (case files w p of None \<Rightarrow> [] | Some old \<Rightarrow> old)"

definition report :: "'p runtime \<Rightarrow> 'p TsharkListener \<Rightarrow> nat \<Rightarrow> str \<times> str \<times> str \<Rightarrow> str list" where
  "report rt L k r =
     (case r of (username, domain, cipher) \<Rightarrow>
        [lit ''[+] '' @ now rt k @ lit '' - Captured AS-REQ for '' @ username @ lit ''@'' @ domain,
         format_asreq_hash (ucd_lower rt) username domain cipher (format L)])"

fun reports :: "'p runtime \<Rightarrow> 'p TsharkListener \<Rightarrow> nat \<Rightarrow> (str \<times> str \<times> str) list \<Rightarrow> str list" where
  "reports rt L k [] = []"
| "reports rt L k (r # rs) = report rt L k r @ reports rt L (Suc k) rs"

definition hash_line :: "'p runtime \<Rightarrow> 'p TsharkListener \<Rightarrow> str \<times> str \<times> str \<Rightarrow> str" where
  "hash_line rt L r =
     (case r of (username, domain, cipher) \<Rightarrow>
        format_asreq_hash (ucd_lower rt) username domain cipher (format L) @ newline)"

text \<open>
  Two state changes named for the proofs: the world after the console report of a record,
  and the world after a text has gone to the end of a file.
\<close>

definition reported :: "'p runtime \<Rightarrow> 'p TsharkListener \<Rightarrow> 'p world \<Rightarrow> str \<times> str \<times> str \<Rightarrow> 'p world" where
  "reported rt L w r = w\<lparr>clock := Suc (clock w), console := console w @ report rt L (clock w) r\<rparr>"

definition appended :: "'p world \<Rightarrow> 'p \<Rightarrow> str \<Rightarrow> 'p world" where
  "appended w p text = w\<lparr>files := (files w)(p \<mapsto> contents w p @ text)\<rparr>"

subsection \<open>A concrete environment\<close>

text \<open>
  An environment to evaluate the model in: paths are strings joined with \<open>/\<close> (what
  \<open>pathlib\<close> does for a relative directory and a plain file name), the clock always reads
  the same second, a code point outside ASCII is its own lower case, every file can be
  opened, and the decoder runs as process 7, the leader of its own group. \<open>read_only_world\<close> is the same world where no file can be opened.
  \<open>example_listener\<close> is the listener as \<open>main\<close> builds it for \<open>-o out -f hashcat\<close>,
  after \<open>start\<close> has stored the process; \<open>no_files_listener\<close> is the one for
  \<open>--no-files\<close>.
\<close>

definition example_runtime :: "str runtime" where
  "example_runtime =
     \<lparr>ucd_lower = (\<lambda>s i. [s ! i]), truediv = (\<lambda>d n. d @ lit ''/'' @ n), parents = (\<lambda>p. []),
      path_str = (\<lambda>p. p), now = (\<lambda>k. lit ''2024-01-01 00:00:00'')\<rparr>"

definition example_world :: "str world" where
  "example_world =
     \<lparr>files = (\<lambda>p. None), dirs = {lit ''out''}, appendable = (\<lambda>p. True), mkdir_ok = (\<lambda>p. True),
      console = [], clock = 0, procs = [(7, 7)], sigterm = {}\<rparr>"

definition read_only_world :: "str world" where
  "read_only_world = example_world\<lparr>appendable := (\<lambda>p. False)\<rparr>"

definition example_listener :: "str TsharkListener" where
  "example_listener =
     (TsharkListener_init example_runtime (lit ''eth0'') (lit ''out'') (lit ''hashcat'') False)
       \<lparr>proc := Some 7\<rparr>"

definition no_files_listener :: "str TsharkListener" where
  "no_files_listener =
     (TsharkListener_init example_runtime (lit ''eth0'') (lit ''out'') (lit ''hashcat'') True)
       \<lparr>proc := Some 7\<rparr>"

definition example_lines :: "str list" where
  "example_lines = [lit ''alice$EXAMPLE.COM$deadbeef'', lit ''not a capture'', lit ''bob$EXAMPLE.COM$cafe'']"

section \<open>Strings: splitting and stripping\<close>

lemmas string_eval = lit_def dollar_def newline_def strip_def isspace_def ascii_lower_def lower_def

lemma str_split_not_Nil: "str_split sep s \<noteq> []"
  by (induction s) (auto split: list.splits)

lemma str_split_no_sep: "sep \<notin> set u \<Longrightarrow> str_split sep u = [u]"
  by (induction u) auto

lemma str_split_append: "sep \<notin> set u \<Longrightarrow> str_split sep (u @ sep # r) = u # str_split sep r"
  by (induction u) auto

lemma length_str_split: "length (str_split sep s) = Suc (length (filter (\<lambda>c. c = sep) s))"
  by (induction s) (auto split: list.splits simp: str_split_not_Nil)

lemma str_split_Cons:
  "str_split sep s = p # ps \<Longrightarrow>
     sep \<notin> set p \<and> (if ps = [] then s = p else \<exists>r. s = p @ sep # r \<and> str_split sep r = ps)"
proof (induction s arbitrary: p ps)
  case Nil
  then show ?case by simp
next
  case (Cons c cs)
  show ?case
  proof (cases "c = sep")
    case True
    with Cons.prems have "p = []" "ps = str_split sep cs" by auto
    with True show ?thesis by (simp add: str_split_not_Nil)
  next
    case False
    obtain q qs where q: "str_split sep cs = q # qs"
      using str_split_not_Nil [of sep cs] by (cases "str_split sep cs") auto
    with False Cons.prems have p: "p = c # q" "ps = qs" by auto
    from Cons.IH [OF q] False p show ?thesis by auto
  qed
qed

lemma str_split_three:
  assumes "str_split sep s = [u, d, c]"
  shows "s = u @ sep # d @ sep # c \<and> sep \<notin> set u \<and> sep \<notin> set d \<and> sep \<notin> set c"
proof -
  from str_split_Cons [OF assms] obtain r where
    r: "sep \<notin> set u" "s = u @ sep # r" "str_split sep r = [d, c]" by auto
  from str_split_Cons [OF r(3)] obtain r' where
    r': "sep \<notin> set d" "r = d @ sep # r'" "str_split sep r' = [c]" by auto
  from str_split_Cons [OF r'(3)] have "sep \<notin> set c" "r' = c" by auto
  with r r' show ?thesis by simp
qed

lemma not_isspace_dollar: "\<not> isspace dollar"
  by (simp add: isspace_def dollar_def)

lemma filter_dropWhile_other:
  "(\<And>x. Q x \<Longrightarrow> \<not> P x) \<Longrightarrow> filter P (dropWhile Q s) = filter P s"
  by (induction s) auto

lemma filter_dollar_strip: "filter (\<lambda>c. c = dollar) (strip s) = filter (\<lambda>c. c = dollar) s"
proof -
  have *: "\<And>t. filter (\<lambda>c. c = dollar) (dropWhile isspace t) = filter (\<lambda>c. c = dollar) t"
    by (rule filter_dropWhile_other) (use not_isspace_dollar in auto)
  have "filter (\<lambda>c. c = dollar) (strip s) = rev (filter (\<lambda>c. c = dollar) (dropWhile isspace (rev (dropWhile isspace s))))"
    by (simp add: strip_def rev_filter)
  also have "\<dots> = filter (\<lambda>c. c = dollar) (dropWhile isspace s)"
    by (simp add: * rev_filter)
  finally show ?thesis by (simp add: *)
qed

lemma length_str_split_strip:
  "length (str_split dollar (strip s)) = length (str_split dollar s)"
  by (simp add: length_str_split filter_dollar_strip)

lemma strip_all_space: "\<forall>c\<in>set s. isspace c \<Longrightarrow> strip s = []"
  by (auto simp: strip_def dest: set_dropWhileD)

lemma strip_id: "s \<noteq> [] \<Longrightarrow> \<not> isspace (hd s) \<Longrightarrow> \<not> isspace (last s) \<Longrightarrow> strip s = s"
proof -
  assume a: "s \<noteq> []" "\<not> isspace (hd s)" "\<not> isspace (last s)"
  then have "dropWhile isspace s = s" by (cases s) auto
  moreover from a have "dropWhile isspace (rev s) = rev s"
    by (cases "rev s") (auto simp: last_rev hd_rev dest: arg_cong [where f = hd])
  ultimately show ?thesis by (simp add: strip_def)
qed

lemma strip_Nil_or_trimmed:
  "strip s = [] \<or> (\<not> isspace (hd (strip s)) \<and> \<not> isspace (last (strip s)))"
proof (cases "strip s = []")
  case True
  then show ?thesis by simp
next
  case False
  define t where "t = dropWhile isspace s"
  define u where "u = dropWhile isspace (rev t)"
  have s: "strip s = rev u" by (simp add: strip_def u_def t_def)
  with False have u: "u \<noteq> []" by simp
  have "\<not> isspace (hd u)" using u unfolding u_def by (rule hd_dropWhile)
  then have l: "\<not> isspace (last (strip s))" using u by (simp add: s last_rev)
  have "rev t = takeWhile isspace (rev t) @ u" by (simp add: u_def)
  then have "t = rev u @ rev (takeWhile isspace (rev t))"
    by (metis rev_append rev_rev_ident)
  then have ht: "hd t = hd (rev u)" and t: "t \<noteq> []" using u by (metis hd_append2 rev_is_Nil_conv, auto)
  have "\<not> isspace (hd t)" using t unfolding t_def by (rule hd_dropWhile)
  with ht have "\<not> isspace (hd (strip s))" by (simp add: s)
  with l show ?thesis by simp
qed

lemma strip_strip: "strip (strip s) = strip s"
proof (cases "strip s = []")
  case True
  have "strip [] = []" by (simp add: strip_def)
  with True show ?thesis by simp
next
  case False
  with strip_Nil_or_trimmed [of s] show ?thesis by (intro strip_id) auto
qed

lemma lower_from_ascii:
  "\<forall>c\<in>set cs. c < 128 \<Longrightarrow> lower_from ucd s i cs = map ascii_lower cs"
  by (induction cs arbitrary: i) auto

lemma ascii_lower_ascii: "ascii_lower c < 128 \<Longrightarrow> c < 128"
  by (simp add: ascii_lower_def split: if_splits)

lemma lower_case_variant:
  assumes "map ascii_lower fmt = lit ''john''"
  shows "lower ucd fmt = lit ''john''"
proof -
  have "\<forall>c\<in>set (map ascii_lower fmt). c < 128" unfolding assms by (simp add: lit_def)
  then have "\<forall>c\<in>set fmt. c < 128" by (auto intro: ascii_lower_ascii)
  then show ?thesis by (simp add: lower_def lower_from_ascii assms)
qed

section \<open>The field parser\<close>

lemma parse_asreq_line_None_iff:
  "parse_asreq_line line = None \<longleftrightarrow>
     length (str_split dollar (strip line)) \<noteq> 3 \<or> [] \<in> set (str_split dollar (strip line))"
  by (auto simp: parse_asreq_line_def split: list.splits)

lemma parse_asreq_line_strip: "parse_asreq_line (strip line) = parse_asreq_line line"
  by (simp add: parse_asreq_line_def strip_strip)

lemma parse_asreq_line_blank: "strip line = [] \<Longrightarrow> parse_asreq_line line = None"
  by (simp add: parse_asreq_line_def)

lemma parse_alice:
  "parse_asreq_line (lit ''alice$EXAMPLE.COM$deadbeef'') = Some (lit ''alice'', lit ''EXAMPLE.COM'', lit ''deadbeef'')"
  by (simp add: parse_asreq_line_def string_eval)

lemma parse_example_lines:
  "List.map_filter parse_asreq_line example_lines =
     [(lit ''alice'', lit ''EXAMPLE.COM'', lit ''deadbeef''), (lit ''bob'', lit ''EXAMPLE.COM'', lit ''cafe'')]"
  by (simp add: example_lines_def parse_asreq_line_def string_eval)

section \<open>One iteration of the loop\<close>

lemma append_text_appended:
  "append_text w p text = (if appendable w p then Inr (appended w p text) else Inl OSError)"
  by (simp add: append_text_def appended_def contents_def)

lemma appended_simps:
  "appendable (appended w p t) = appendable w" "dirs (appended w p t) = dirs w"
  "console (appended w p t) = console w" "clock (appended w p t) = clock w"
  "procs (appended w p t) = procs w" "sigterm (appended w p t) = sigterm w"
  "mkdir_ok (appended w p t) = mkdir_ok w"
  "files (appended w p t) = (files w)(p \<mapsto> contents w p @ t)"
  by (simp_all add: appended_def)

lemma contents_appended:
  "contents (appended w p t) q = (if q = p then contents w p @ t else contents w q)"
  by (simp add: appended_def contents_def)

lemma reported_simps:
  "appendable (reported rt L w r) = appendable w" "dirs (reported rt L w r) = dirs w"
  "console (reported rt L w r) = console w @ report rt L (clock w) r"
  "clock (reported rt L w r) = Suc (clock w)"
  "procs (reported rt L w r) = procs w" "sigterm (reported rt L w r) = sigterm w"
  "mkdir_ok (reported rt L w r) = mkdir_ok w"
  "files (reported rt L w r) = files w"
  by (simp_all add: reported_def)

lemma contents_reported: "contents (reported rt L w r) q = contents w q"
  by (simp add: reported_def contents_def)

lemma process_line_invalid:
  "parse_asreq_line line = None \<Longrightarrow> process_line rt L w line = (None, w)"
  by (simp add: process_line_def parse_asreq_line_strip Let_def)

lemma process_line_valid:
  assumes "parse_asreq_line line = Some (u, d, c)"
  shows "process_line rt L w line =
     (let h = format_asreq_hash (ucd_lower rt) u d c (format L); w3 = reported rt L w (u, d, c) in
      if no_files L then (None, w3)
      else case append_text w3 (user_file rt (out_dir L) u d) (h @ newline) of
             Inl e \<Rightarrow> (Some e, w3)
           | Inr w4 \<Rightarrow>
               (case append_text w4 (all_hashes_file L) (h @ newline) of
                  Inl e \<Rightarrow> (Some e, w4)
                | Inr w5 \<Rightarrow> (None, w5)))"
proof -
  from assms have "strip line \<noteq> []" using parse_asreq_line_blank by fastforce
  with assms show ?thesis
    by (simp add: process_line_def parse_asreq_line_strip Let_def reported_def report_def
        py_print_def write_output_def split: sum.splits)
qed

lemma process_line_no_files:
  "no_files L \<Longrightarrow> parse_asreq_line line = Some r \<Longrightarrow>
     process_line rt L w line = (None, reported rt L w r)"
  by (cases r) (simp add: process_line_valid Let_def)

lemma process_line_persisted:
  assumes "parse_asreq_line line = Some (u, d, c)" "\<not> no_files L"
    and "appendable w (user_file rt (out_dir L) u d)" "appendable w (all_hashes_file L)"
  shows "process_line rt L w line =
     (None, appended (appended (reported rt L w (u, d, c)) (user_file rt (out_dir L) u d)
              (format_asreq_hash (ucd_lower rt) u d c (format L) @ newline))
            (all_hashes_file L) (format_asreq_hash (ucd_lower rt) u d c (format L) @ newline))"
  using assms
  by (simp add: process_line_valid Let_def append_text_appended appended_simps reported_simps)

lemma process_line_failed:
  assumes "parse_asreq_line line = Some (u, d, c)" "\<not> no_files L"
    and "\<not> appendable w (user_file rt (out_dir L) u d) \<or> \<not> appendable w (all_hashes_file L)"
  shows "process_line rt L w line =
     (Some OSError,
      if appendable w (user_file rt (out_dir L) u d)
      then appended (reported rt L w (u, d, c)) (user_file rt (out_dir L) u d)
             (format_asreq_hash (ucd_lower rt) u d c (format L) @ newline)
      else reported rt L w (u, d, c))"
  using assms
  by (auto simp: process_line_valid Let_def append_text_appended appended_simps reported_simps)


section \<open>Shutdown and the loop\<close>

lemma shutdown_Inr:
  "\<exists>w'. shutdown L w = Inr (L\<lparr>stop := True\<rparr>, w') \<and> files w' = files w \<and> dirs w' = dirs w
     \<and> console w' = console w \<and> clock w' = clock w \<and> appendable w' = appendable w
     \<and> procs w' = procs w \<and> mkdir_ok w' = mkdir_ok w"
  by (auto simp: shutdown_def os_getpgid_def os_killpg_def Let_def split: option.splits sum.splits)

lemma shutdown_signals:
  assumes "proc L = Some pid" "map_of (procs w) pid = Some g"
  shows "shutdown L w =
     Inr (L\<lparr>stop := True\<rparr>,
          w\<lparr>sigterm := sigterm w \<union> set (map fst (filter (\<lambda>(pid, g'). g' = g) (procs w)))\<rparr>)"
proof -
  from assms(2) have "(pid, g) \<in> set (procs w)" by (rule map_of_SomeD)
  then have "g \<in> snd ` set (procs w)" by force
  with assms show ?thesis
    by (simp add: shutdown_def os_getpgid_def os_killpg_def)
qed

lemma shutdown_gone:
  "proc L = None \<or> (\<exists>pid. proc L = Some pid \<and> map_of (procs w) pid = None) \<Longrightarrow>
     shutdown L w = Inr (L\<lparr>stop := True\<rparr>, w)"
  by (auto simp: shutdown_def os_getpgid_def)

lemma handle_sigint_Inr:
  "\<exists>w'. handle_sigint L w = Inr (L\<lparr>stop := True\<rparr>, w') \<and> files w' = files w \<and> dirs w' = dirs w
     \<and> console w' = console w @ [newline @ lit ''[!] Stopping listener...'']
     \<and> clock w' = clock w \<and> appendable w' = appendable w"
  using shutdown_Inr [of L "py_print w (newline @ lit ''[!] Stopping listener...'')"]
  by (auto simp: handle_sigint_def py_print_def)

lemma run_loop_no_files:
  "no_files L \<Longrightarrow>
     \<exists>L' w'. run_loop rt es L w = (None, L', w') \<and> files w' = files w \<and> dirs w' = dirs w
        \<and> no_files L' \<and> proc L' = proc L"
proof (induction es arbitrary: L w)
  case Nil
  then show ?case by simp
next
  case (Cons e es)
  show ?case
  proof (cases e)
    case (Line line)
    show ?thesis
    proof (cases "parse_asreq_line line")
      case None
      with Cons.IH [OF Cons.prems, of w] Line Cons.prems show ?thesis
        by (auto simp: process_line_invalid)
    next
      case (Some r)
      with Cons.IH [OF Cons.prems, of "reported rt L w r"] Line Cons.prems show ?thesis
        by (auto simp: process_line_no_files reported_simps)
    qed
  next
    case Interrupt
    from handle_sigint_Inr [of L w] obtain w1 where
      h: "handle_sigint L w = Inr (L\<lparr>stop := True\<rparr>, w1)" "files w1 = files w" "dirs w1 = dirs w"
      by blast
    from Cons.prems have "no_files (L\<lparr>stop := True\<rparr>)" by simp
    from Cons.IH [OF this, of w1] h Interrupt show ?thesis by auto
  qed
qed

lemma run_loop_lines:
  assumes "\<not> stop L" "no_files L \<or> (\<forall>p. appendable w p)"
  shows "\<exists>w'. run_loop rt (map Line ls) L w = (None, L, w')
      \<and> console w' = console w @ reports rt L (clock w) (List.map_filter parse_asreq_line ls)
      \<and> procs w' = procs w \<and> sigterm w' = sigterm w
      \<and> (\<not> no_files L \<and>
           (\<forall>(u, d, c) \<in> set (List.map_filter parse_asreq_line ls).
               user_file rt (out_dir L) u d \<noteq> all_hashes_file L) \<longrightarrow>
          contents w' (all_hashes_file L) =
            contents w (all_hashes_file L) @
              concat (map (hash_line rt L) (List.map_filter parse_asreq_line ls)))"
  using assms
proof (induction ls arbitrary: w)
  case Nil
  then show ?case by simp
next
  case (Cons line ls)
  show ?case
  proof (cases "parse_asreq_line line")
    case None
    with Cons.IH [of w] Cons.prems show ?thesis
      by (auto simp: process_line_invalid)
  next
    case (Some r)
    obtain u d c where r: "r = (u, d, c)" by (cases r)
    show ?thesis
    proof (cases "no_files L")
      case True
      with Cons.IH [of "reported rt L w r"] Cons.prems Some show ?thesis
        by (auto simp: process_line_no_files reported_simps)
    next
      case False
      define h where "h = format_asreq_hash (ucd_lower rt) u d c (format L) @ newline"
      define w1 where "w1 = appended (appended (reported rt L w (u, d, c)) (user_file rt (out_dir L) u d) h)
            (all_hashes_file L) h"
      from False Cons.prems have ap: "\<forall>p. appendable w p" by simp
      with Some r False have pl: "process_line rt L w line = (None, w1)"
        by (simp add: process_line_persisted w1_def h_def)
      from ap have "no_files L \<or> (\<forall>p. appendable w1 p)"
        by (simp add: w1_def appended_simps reported_simps)
      from Cons.IH [OF Cons.prems(1) this] obtain w' where
        w': "run_loop rt (map Line ls) L w1 = (None, L, w')"
          "console w' = console w1 @ reports rt L (clock w1) (List.map_filter parse_asreq_line ls)"
          "procs w' = procs w1" "sigterm w' = sigterm w1"
          "\<not> no_files L \<and>
           (\<forall>(u, d, c) \<in> set (List.map_filter parse_asreq_line ls).
               user_file rt (out_dir L) u d \<noteq> all_hashes_file L) \<longrightarrow>
          contents w' (all_hashes_file L) =
            contents w1 (all_hashes_file L) @
              concat (map (hash_line rt L) (List.map_filter parse_asreq_line ls))"
        by blast
      have c1: "console w1 = console w @ report rt L (clock w) (u, d, c)" "clock w1 = Suc (clock w)"
        "procs w1 = procs w" "sigterm w1 = sigterm w"
        by (simp_all add: w1_def appended_simps reported_simps)
      have c2: "user_file rt (out_dir L) u d \<noteq> all_hashes_file L \<Longrightarrow>
          contents w1 (all_hashes_file L) = contents w (all_hashes_file L) @ hash_line rt L (u, d, c)"
        by (simp add: w1_def contents_appended contents_reported hash_line_def h_def)
      from pl w' c1 c2 Some r Cons.prems(1) show ?thesis
        by auto
    qed
  qed
qed



lemma run_no_files:
  assumes "no_files L"
  shows "\<exists>e L' w'. run rt es L w = (e, L', w') \<and> files w' = files w \<and> dirs w' = dirs w"
proof -
  from run_loop_no_files [OF assms, of rt es w] obtain L' w' where
    "run_loop rt es L w = (None, L', w')" "files w' = files w" "dirs w' = dirs w" by blast
  then show ?thesis
    by (auto simp: run_def terminate_def split: option.splits)
qed

lemma run_lines:
  assumes "proc L = Some pid" "run_loop rt es L w = (None, L, w1)"
  shows "\<exists>w'. run rt es L w = (None, L, w') \<and> files w' = files w1 \<and> dirs w' = dirs w1
     \<and> console w' = console w1"
  using assms by (auto simp: run_def terminate_def)

section \<open>The concrete environment, evaluated\<close>

lemma example_listener_simps:
  "stop example_listener = False" "no_files example_listener = False"
  "proc example_listener = Some 7" "format example_listener = lit ''hashcat''"
  "out_dir example_listener = lit ''out''"
  "all_hashes_file example_listener = lit ''out/all_hashes_hashcat.txt''"
  by (simp_all add: example_listener_def TsharkListener_init_def example_runtime_def string_eval)

lemma no_files_listener_simps:
  "stop no_files_listener = False" "no_files no_files_listener = True"
  "proc no_files_listener = Some 7" "format no_files_listener = lit ''hashcat''"
  by (simp_all add: no_files_listener_def TsharkListener_init_def example_runtime_def string_eval)

lemma example_hashes:
  "format_asreq_hash (ucd_lower example_runtime) (lit ''alice'') (lit ''EXAMPLE.COM'') (lit ''deadbeef'') (lit ''hashcat'')
     = lit ''$krb5pa$18$alice$EXAMPLE.COM$deadbeef''"
  "format_asreq_hash (ucd_lower example_runtime) (lit ''bob'') (lit ''EXAMPLE.COM'') (lit ''cafe'') (lit ''hashcat'')
     = lit ''$krb5pa$18$bob$EXAMPLE.COM$cafe''"
  by (simp_all add: format_asreq_hash_def string_eval)

lemma example_headers:
  "lit ''[+] '' @ now example_runtime k @ lit '' - Captured AS-REQ for '' @ lit ''alice'' @ lit ''@'' @ lit ''EXAMPLE.COM''
     = lit ''[+] 2024-01-01 00:00:00 - Captured AS-REQ for alice@EXAMPLE.COM''"
  "lit ''[+] '' @ now example_runtime k @ lit '' - Captured AS-REQ for '' @ lit ''bob'' @ lit ''@'' @ lit ''EXAMPLE.COM''
     = lit ''[+] 2024-01-01 00:00:00 - Captured AS-REQ for bob@EXAMPLE.COM''"
  by (simp_all add: example_runtime_def lit_def)

section \<open>The claims\<close>

subsection \<open>C1: a failed append and the capture loop\<close>

text \<open>
  C1 says that a file-system error during either append of a record stays inside that
  record's persistence step and that the loop goes on with the next line. \<open>run\<close> has no
  handler around the two appends, so the claim fails: with no file that can be opened,
  the first valid line is reported on the console, the run ends with \<open>OSError\<close>, and the
  second valid line is never reported.
\<close>

theorem run_persistence_failure_counterexample:
  "fst (run example_runtime [Line (lit ''alice$EXAMPLE.COM$deadbeef''), Line (lit ''bob$EXAMPLE.COM$cafe'')]
          example_listener read_only_world) = Some OSError
   \<and> console (snd (snd (run example_runtime
          [Line (lit ''alice$EXAMPLE.COM$deadbeef''), Line (lit ''bob$EXAMPLE.COM$cafe'')]
          example_listener read_only_world))) =
       [lit ''[+] 2024-01-01 00:00:00 - Captured AS-REQ for alice@EXAMPLE.COM'',
        lit ''$krb5pa$18$alice$EXAMPLE.COM$deadbeef'']"
proof -
  have "\<not> appendable read_only_world (user_file example_runtime (out_dir example_listener) (lit ''alice'') (lit ''EXAMPLE.COM''))"
    by (simp add: read_only_world_def)
  then have "process_line example_runtime example_listener read_only_world (lit ''alice$EXAMPLE.COM$deadbeef'')
     = (Some OSError, reported example_runtime example_listener read_only_world (lit ''alice'', lit ''EXAMPLE.COM'', lit ''deadbeef''))"
    using process_line_failed [OF parse_alice, of example_listener read_only_world example_runtime]
    by (simp add: example_listener_simps)
  then show ?thesis
    by (simp add: run_def example_listener_simps reported_simps report_def)
      (simp add: read_only_world_def example_world_def example_runtime_def format_asreq_hash_def string_eval)
qed

text \<open>
  C1 as amended: when a valid record is processed with persistence enabled and the
  per-identity file or the aggregate file cannot be opened, the error leaves the loop and
  \<open>run\<close> at that record, whatever events \<open>es\<close> follow: the record's two console lines
  have been printed, nothing more is printed, and no signal is sent to the decoder by
  \<open>run\<close>.
\<close>

theorem persistence_failure_ends_run:
  assumes "proc L = Some pid" "\<not> stop L" "\<not> no_files L"
    and "parse_asreq_line line = Some (u, d, c)"
    and "\<not> appendable w (user_file rt (out_dir L) u d) \<or> \<not> appendable w (all_hashes_file L)"
  shows "\<exists>w'. run_loop rt (Line line # es) L w = (Some OSError, L, w')
      \<and> run rt (Line line # es) L w = (Some OSError, L, w')
      \<and> console w' = console w @ report rt L (clock w) (u, d, c)
      \<and> procs w' = procs w \<and> sigterm w' = sigterm w"
  using assms process_line_failed [OF assms(4,3,5)]
  by (auto simp: run_def appended_simps reported_simps)

theorem persistence_failure_ends_run_witness:
  "\<exists>w'. run_loop example_runtime [Line (lit ''alice$EXAMPLE.COM$deadbeef''), Line (lit ''bob$EXAMPLE.COM$cafe'')]
          example_listener read_only_world = (Some OSError, example_listener, w')
      \<and> run example_runtime [Line (lit ''alice$EXAMPLE.COM$deadbeef''), Line (lit ''bob$EXAMPLE.COM$cafe'')]
          example_listener read_only_world = (Some OSError, example_listener, w')
      \<and> console w' = console read_only_world @
           report example_runtime example_listener (clock read_only_world)
             (lit ''alice'', lit ''EXAMPLE.COM'', lit ''deadbeef'')
      \<and> procs w' = procs read_only_world \<and> sigterm w' = sigterm read_only_world"
proof -
  have "\<not> appendable read_only_world (user_file example_runtime (out_dir example_listener) (lit ''alice'') (lit ''EXAMPLE.COM''))
     \<or> \<not> appendable read_only_world (all_hashes_file example_listener)"
    by (simp add: read_only_world_def)
  from persistence_failure_ends_run [OF example_listener_simps(3) _ _ parse_alice this]
  show ?thesis by (simp add: example_listener_simps)
qed

subsection \<open>C2: well-formed lines\<close>

text \<open>
  C2 says that every line \<open>U$D$C\<close> with non-empty \<open>U\<close>, \<open>D\<close>, \<open>C\<close> parses to the record
  \<open>(U, D, C)\<close>. It fails when \<open>U\<close> starts or \<open>C\<close> ends with white space (the line is
  stripped first, so the parsed field is not the one given) and when a field contains the
  delimiter (the line then has more than three parts).
\<close>

theorem parse_asreq_line_well_formed_counterexample:
  "lit '' alice'' \<noteq> [] \<and> lit ''EXAMPLE.COM'' \<noteq> [] \<and> lit ''deadbeef'' \<noteq> []
   \<and> parse_asreq_line (lit '' alice'' @ lit ''$'' @ lit ''EXAMPLE.COM'' @ lit ''$'' @ lit ''deadbeef'')
       = Some (lit ''alice'', lit ''EXAMPLE.COM'', lit ''deadbeef'')
   \<and> parse_asreq_line (lit '' alice'' @ lit ''$'' @ lit ''EXAMPLE.COM'' @ lit ''$'' @ lit ''deadbeef'')
       \<noteq> Some (lit '' alice'', lit ''EXAMPLE.COM'', lit ''deadbeef'')
   \<and> lit ''deadbeef '' \<noteq> []
   \<and> parse_asreq_line (lit ''alice'' @ lit ''$'' @ lit ''EXAMPLE.COM'' @ lit ''$'' @ lit ''deadbeef '')
       \<noteq> Some (lit ''alice'', lit ''EXAMPLE.COM'', lit ''deadbeef '')
   \<and> lit ''a$b'' \<noteq> []
   \<and> parse_asreq_line (lit ''a$b'' @ lit ''$'' @ lit ''EXAMPLE.COM'' @ lit ''$'' @ lit ''deadbeef'') = None"
  by (simp add: parse_asreq_line_def string_eval)

text \<open>
  C2 as amended: the line \<open>U$D$C\<close> parses to \<open>(U, D, C)\<close> when the three fields are
  non-empty, none contains \<open>$\<close>, \<open>U\<close> does not start with white space and \<open>C\<close> does not
  end with white space.
\<close>

theorem parse_asreq_line_well_formed:
  assumes "U \<noteq> []" "D \<noteq> []" "C \<noteq> []"
    and "dollar \<notin> set U" "dollar \<notin> set D" "dollar \<notin> set C"
    and "\<not> isspace (hd U)" "\<not> isspace (last C)"
  shows "parse_asreq_line (U @ lit ''$'' @ D @ lit ''$'' @ C) = Some (U, D, C)"
proof -
  let ?s = "U @ dollar # D @ dollar # C"
  have l: "lit ''$'' = [dollar]" by (simp add: lit_def dollar_def)
  from assms have "hd ?s = hd U" "last ?s = last C" by auto
  with assms have "strip ?s = ?s" by (intro strip_id) auto
  moreover from assms have "str_split dollar ?s = [U, D, C]"
    by (simp add: str_split_append str_split_no_sep)
  ultimately show ?thesis using assms by (simp add: parse_asreq_line_def l)
qed

theorem parse_asreq_line_well_formed_witness:
  "parse_asreq_line (lit ''alice'' @ lit ''$'' @ lit ''EXAMPLE.COM'' @ lit ''$'' @ lit ''deadbeef'')
     = Some (lit ''alice'', lit ''EXAMPLE.COM'', lit ''deadbeef'')"
  using parse_asreq_line_well_formed [of "lit ''alice''" "lit ''EXAMPLE.COM''" "lit ''deadbeef''"]
  by (simp add: string_eval)

subsection \<open>C3: rejected lines\<close>

text \<open>
  C3: a line that is empty, or all white space, or that splits on \<open>$\<close> into a number of
  parts other than three (before or after stripping: the count is the same), or one of
  whose parts is empty once the whole line has been stripped, yields no record.
\<close>

theorem parse_asreq_line_rejects:
  assumes "line = [] \<or> (\<forall>c\<in>set line. isspace c)
      \<or> length (str_split dollar line) \<noteq> 3
      \<or> length (str_split dollar (strip line)) \<noteq> 3
      \<or> [] \<in> set (str_split dollar (strip line))"
  shows "parse_asreq_line line = None"
proof -
  have "strip line = [] \<Longrightarrow> parse_asreq_line line = None"
    by (simp add: parse_asreq_line_def)
  with assms show ?thesis
    using strip_all_space [of line] length_str_split_strip [of line]
    by (auto simp: parse_asreq_line_None_iff)
qed

theorem parse_asreq_line_rejects_witness:
  "parse_asreq_line [] = None
   \<and> parse_asreq_line (lit ''   '') = None
   \<and> parse_asreq_line (lit ''alice$EXAMPLE.COM'') = None
   \<and> parse_asreq_line (lit ''alice$EXAMPLE.COM$dead$beef'') = None
   \<and> parse_asreq_line (lit ''alice$$deadbeef'') = None
   \<and> parse_asreq_line (lit '' $EXAMPLE.COM$deadbeef'') = None"
proof -
  have 1: "\<forall>c\<in>set (lit ''   ''). isspace c" by (simp add: string_eval)
  have 2: "length (str_split dollar (lit ''alice$EXAMPLE.COM'')) \<noteq> 3" by (simp add: string_eval)
  have 3: "length (str_split dollar (lit ''alice$EXAMPLE.COM$dead$beef'')) \<noteq> 3" by (simp add: string_eval)
  have 4: "[] \<in> set (str_split dollar (strip (lit ''alice$$deadbeef'')))" by (simp add: string_eval)
  have 5: "[] \<in> set (str_split dollar (strip (lit '' $EXAMPLE.COM$deadbeef'')))" by (simp add: string_eval)
  show ?thesis
    using parse_asreq_line_rejects [of "[]"] parse_asreq_line_rejects [of "lit ''   ''"]
      parse_asreq_line_rejects [of "lit ''alice$EXAMPLE.COM''"]
      parse_asreq_line_rejects [of "lit ''alice$EXAMPLE.COM$dead$beef''"]
      parse_asreq_line_rejects [of "lit ''alice$$deadbeef''"]
      parse_asreq_line_rejects [of "lit '' $EXAMPLE.COM$deadbeef''"]
      1 2 3 4 5
    by blast
qed

subsection \<open>C4: the two hash templates\<close>

text \<open>
  C4: for every record the formatter returns \<open>$krb5pa$18$\<close>, the principal, \<open>$\<close>, the
  realm, \<open>$\<close>, the cipher in hashcat mode, and the same with \<open>$$\<close> before the cipher in
  john mode. The formatter is a function: it has a result for every input.
\<close>

theorem format_asreq_hash_templates:
  "format_asreq_hash ucd u d c (lit ''hashcat'') = lit ''$krb5pa$18$'' @ u @ lit ''$'' @ d @ lit ''$'' @ c
   \<and> format_asreq_hash ucd u d c (lit ''john'') = lit ''$krb5pa$18$'' @ u @ lit ''$'' @ d @ lit ''$$'' @ c"
  by (simp add: format_asreq_hash_def string_eval)

subsection \<open>C5: what the output sink appends\<close>




subsection \<open>C6: arrival order\<close>



subsection \<open>C7: shutdown twice\<close>

text \<open>
  C7: \<open>shutdown\<close> never raises, it sets the stop flag, and a second \<open>shutdown\<close> right
  after the first changes nothing: the listener and the world are the ones the first call
  left. When the decoder's process exists, every process of its group has been sent
  SIGTERM; in any world where the process no longer exists, \<open>shutdown\<close> still returns
  normally and leaves that world as it is.
\<close>

theorem shutdown_idempotent:
  "\<exists>L1 w1. shutdown L w = Inr (L1, w1) \<and> stop L1 \<and> shutdown L1 w1 = Inr (L1, w1)
     \<and> (\<forall>pid g. proc L = Some pid \<and> map_of (procs w) pid = Some g \<longrightarrow>
           (\<forall>q. (q, g) \<in> set (procs w) \<longrightarrow> q \<in> sigterm w1))
     \<and> (\<forall>w'. (\<forall>pid. proc L = Some pid \<longrightarrow> map_of (procs w') pid = None) \<longrightarrow>
           shutdown L1 w' = Inr (L1, w'))"
proof -
  define L1 where "L1 = L\<lparr>stop := True\<rparr>"
  have L1: "proc L1 = proc L" "stop L1" "L1\<lparr>stop := True\<rparr> = L1" by (simp_all add: L1_def)
  have gone: "shutdown L1 w' = Inr (L1, w')"
    if "\<forall>pid. proc L = Some pid \<longrightarrow> map_of (procs w') pid = None" for w'
    using that shutdown_gone [of L1 w'] L1 by (cases "proc L") auto
  show ?thesis
  proof (cases "\<exists>pid g. proc L = Some pid \<and> map_of (procs w) pid = Some g")
    case False
    then have "proc L = None \<or> (\<exists>pid. proc L = Some pid \<and> map_of (procs w) pid = None)"
      by (cases "proc L") auto
    from shutdown_gone [OF this] have 1: "shutdown L w = Inr (L1, w)" by (simp add: L1_def)
    from False have "\<forall>pid. proc L = Some pid \<longrightarrow> map_of (procs w) pid = None"
      by (metis option.exhaust)
    from gone [OF this] 1 L1(2) gone False show ?thesis by blast
  next
    case True
    then obtain pid g where pg: "proc L = Some pid" "map_of (procs w) pid = Some g" by blast
    define w1 where "w1 = w\<lparr>sigterm := sigterm w \<union> set (map fst (filter (\<lambda>(pid, g'). g' = g) (procs w)))\<rparr>"
    have 1: "shutdown L w = Inr (L1, w1)"
      using shutdown_signals [OF pg] by (simp add: L1_def w1_def)
    have "procs w1 = procs w" by (simp add: w1_def)
    with pg L1 have "shutdown L1 w1 =
       Inr (L1, w1\<lparr>sigterm := sigterm w1 \<union> set (map fst (filter (\<lambda>(pid, g'). g' = g) (procs w1)))\<rparr>)"
      using shutdown_signals [of L1 pid w1 g] by simp
    moreover have "w1\<lparr>sigterm := sigterm w1 \<union> set (map fst (filter (\<lambda>(pid, g'). g' = g) (procs w1)))\<rparr> = w1"
      by (simp add: w1_def)
    ultimately have 2: "shutdown L1 w1 = Inr (L1, w1)" by simp
    have 3: "\<forall>q. (q, g) \<in> set (procs w) \<longrightarrow> q \<in> sigterm w1"
      by (force simp: w1_def)
    from 1 2 3 pg L1(2) gone show ?thesis by auto
  qed
qed

theorem shutdown_idempotent_witness:
  "\<exists>L1 w1. shutdown example_listener example_world = Inr (L1, w1) \<and> stop L1
      \<and> shutdown L1 w1 = Inr (L1, w1) \<and> 7 \<in> sigterm w1
      \<and> shutdown L1 (w1\<lparr>procs := []\<rparr>) = Inr (L1, w1\<lparr>procs := []\<rparr>)"
proof -
  from shutdown_idempotent [of example_listener example_world] obtain L1 w1 where
    s: "shutdown example_listener example_world = Inr (L1, w1)" "stop L1" "shutdown L1 w1 = Inr (L1, w1)"
    and g: "\<forall>pid g. proc example_listener = Some pid \<and> map_of (procs example_world) pid = Some g \<longrightarrow>
           (\<forall>q. (q, g) \<in> set (procs example_world) \<longrightarrow> q \<in> sigterm w1)"
    and e: "\<forall>w'. (\<forall>pid. proc example_listener = Some pid \<longrightarrow> map_of (procs w') pid = None) \<longrightarrow>
           shutdown L1 w' = Inr (L1, w')"
    by blast
  have p: "proc example_listener = Some 7 \<and> map_of (procs example_world) 7 = Some 7"
    "(7, 7) \<in> set (procs example_world)"
    by (simp_all add: example_listener_simps example_world_def)
  with g have "7 \<in> sigterm w1" by blast
  moreover have "shutdown L1 (w1\<lparr>procs := []\<rparr>) = Inr (L1, w1\<lparr>procs := []\<rparr>)"
    using e by simp
  ultimately show ?thesis using s by blast
qed

subsection \<open>C8: persistence disabled\<close>

text \<open>
  C8: with the no-files flag set, \<open>ensure_output_dir\<close> creates no directory, and \<open>run\<close>,
  whatever lines and signals arrive, leaves every file and the set of directories as they
  were; a run that is not stopped still prints the report (the time-stamped line and the
  hash) of every parseable line, in order, and ends without an error.
\<close>

theorem no_files_creates_nothing:
  assumes "no_files L"
  shows "(\<exists>w'. ensure_output_dir rt w path (no_files L) = Inr w' \<and> files w' = files w \<and> dirs w' = dirs w)
    \<and> (\<exists>e L' w'. run rt es L w = (e, L', w') \<and> files w' = files w \<and> dirs w' = dirs w)
    \<and> (proc L \<noteq> None \<and> \<not> stop L \<longrightarrow>
         (\<exists>L' w'. run rt (map Line ls) L w = (None, L', w') \<and> files w' = files w \<and> dirs w' = dirs w
            \<and> console w' = console w @ reports rt L (clock w) (List.map_filter parse_asreq_line ls)))"
proof -
  have 1: "\<exists>w'. ensure_output_dir rt w path (no_files L) = Inr w' \<and> files w' = files w \<and> dirs w' = dirs w"
    using assms by (simp add: ensure_output_dir_def py_print_def)
  have 2: "\<exists>e L' w'. run rt es L w = (e, L', w') \<and> files w' = files w \<and> dirs w' = dirs w"
    using run_no_files [OF assms, of rt es w] by blast
  have 3: "\<exists>L' w'. run rt (map Line ls) L w = (None, L', w') \<and> files w' = files w \<and> dirs w' = dirs w
            \<and> console w' = console w @ reports rt L (clock w) (List.map_filter parse_asreq_line ls)"
    if "proc L \<noteq> None" "\<not> stop L"
  proof -
    from that(1) obtain pid where pid: "proc L = Some pid" by blast
    from run_loop_lines [OF that(2), of w rt ls] assms obtain w1 where
      w1: "run_loop rt (map Line ls) L w = (None, L, w1)"
        "console w1 = console w @ reports rt L (clock w) (List.map_filter parse_asreq_line ls)"
      by blast
    from run_loop_no_files [OF assms, of rt "map Line ls" w] w1(1)
    have "files w1 = files w" "dirs w1 = dirs w" by auto
    with run_lines [OF pid w1(1)] w1(2) show ?thesis by auto
  qed
  from 1 2 3 show ?thesis by blast
qed

theorem no_files_creates_nothing_witness:
  "(\<exists>w'. ensure_output_dir example_runtime example_world (lit ''out'') True = Inr w'
        \<and> files w' = files example_world \<and> dirs w' = dirs example_world)
   \<and> (\<exists>L' w'. run example_runtime (map Line example_lines) no_files_listener example_world = (None, L', w')
        \<and> files w' = files example_world \<and> dirs w' = dirs example_world
        \<and> console w' =
             [lit ''[+] 2024-01-01 00:00:00 - Captured AS-REQ for alice@EXAMPLE.COM'',
              lit ''$krb5pa$18$alice$EXAMPLE.COM$deadbeef'',
              lit ''[+] 2024-01-01 00:00:00 - Captured AS-REQ for bob@EXAMPLE.COM'',
              lit ''$krb5pa$18$bob$EXAMPLE.COM$cafe''])"
proof -
  have n: "no_files no_files_listener" by (simp add: no_files_listener_simps)
  have c: "console example_world = []" by (simp add: example_world_def)
  have r: "reports example_runtime no_files_listener k (List.map_filter parse_asreq_line example_lines) =
     [lit ''[+] 2024-01-01 00:00:00 - Captured AS-REQ for alice@EXAMPLE.COM'',
      lit ''$krb5pa$18$alice$EXAMPLE.COM$deadbeef'',
      lit ''[+] 2024-01-01 00:00:00 - Captured AS-REQ for bob@EXAMPLE.COM'',
      lit ''$krb5pa$18$bob$EXAMPLE.COM$cafe'']" for k
    by (simp add: parse_example_lines report_def no_files_listener_simps example_hashes example_headers)
  from no_files_creates_nothing [OF n, of example_runtime example_world "lit ''out''" "[]" example_lines]
  show ?thesis
    by (simp add: no_files_listener_simps r c)
qed

subsection \<open>C9: the parser's round trip\<close>

text \<open>
  C9: when the parser returns the record \<open>(u, d, c)\<close> for a line, then \<open>u\<close>, \<open>$\<close>, \<open>d\<close>,
  \<open>$\<close>, \<open>c\<close> put together are the stripped line, and none of the three fields contains
  \<open>$\<close>.
\<close>

theorem parse_asreq_line_round_trip:
  assumes "parse_asreq_line line = Some (u, d, c)"
  shows "u @ lit ''$'' @ d @ lit ''$'' @ c = strip line
       \<and> dollar \<notin> set u \<and> dollar \<notin> set d \<and> dollar \<notin> set c"
proof -
  have l: "lit ''$'' = [dollar]" by (simp add: lit_def dollar_def)
  from assms have "str_split dollar (strip line) = [u, d, c]"
    by (auto simp: parse_asreq_line_def split: list.splits if_splits)
  from str_split_three [OF this] show ?thesis by (simp add: l)
qed

theorem parse_asreq_line_round_trip_witness:
  "lit ''alice'' @ lit ''$'' @ lit ''EXAMPLE.COM'' @ lit ''$'' @ lit ''deadbeef''
       = strip (lit ''  alice$EXAMPLE.COM$deadbeef  '')
   \<and> dollar \<notin> set (lit ''alice'') \<and> dollar \<notin> set (lit ''EXAMPLE.COM'') \<and> dollar \<notin> set (lit ''deadbeef'')"
proof -
  have "parse_asreq_line (lit ''  alice$EXAMPLE.COM$deadbeef  '')
     = Some (lit ''alice'', lit ''EXAMPLE.COM'', lit ''deadbeef'')"
    by (simp add: parse_asreq_line_def string_eval)
  from parse_asreq_line_round_trip [OF this] show ?thesis .
qed

subsection \<open>C10: the mode selector\<close>

text \<open>
  C10: the formatter compares the lower-case form of the mode with \<open>john\<close>. A mode whose
  lower-case form is anything else gives the hashcat template; a mode that is \<open>john\<close> up
  to the case of its four ASCII letters gives the john template. There is a result for
  every mode string.
\<close>

theorem format_asreq_hash_mode_fallback:
  "(lower ucd fmt \<noteq> lit ''john'' \<longrightarrow>
      format_asreq_hash ucd u d c fmt = lit ''$krb5pa$18$'' @ u @ lit ''$'' @ d @ lit ''$'' @ c)
   \<and> (map ascii_lower fmt = lit ''john'' \<longrightarrow>
      format_asreq_hash ucd u d c fmt = lit ''$krb5pa$18$'' @ u @ lit ''$'' @ d @ lit ''$$'' @ c)"
  by (simp add: format_asreq_hash_def lower_case_variant)

theorem format_asreq_hash_mode_fallback_witness:
  "format_asreq_hash (ucd_lower example_runtime) (lit ''alice'') (lit ''EXAMPLE.COM'') (lit ''deadbeef'') (lit ''rainbow'')
      = lit ''$krb5pa$18$alice$EXAMPLE.COM$deadbeef''
   \<and> format_asreq_hash (ucd_lower example_runtime) (lit ''alice'') (lit ''EXAMPLE.COM'') (lit ''deadbeef'') (lit ''JoHn'')
      = lit ''$krb5pa$18$alice$EXAMPLE.COM$$deadbeef''"
proof -
  have 1: "lower (ucd_lower example_runtime) (lit ''rainbow'') \<noteq> lit ''john''" by (simp add: string_eval)
  have 2: "map ascii_lower (lit ''JoHn'') = lit ''john''" by (simp add: string_eval)
  from format_asreq_hash_mode_fallback [of "ucd_lower example_runtime" "lit ''rainbow''" "lit ''alice''" "lit ''EXAMPLE.COM''" "lit ''deadbeef''"]
    format_asreq_hash_mode_fallback [of "ucd_lower example_runtime" "lit ''JoHn''" "lit ''alice''" "lit ''EXAMPLE.COM''" "lit ''deadbeef''"]
    1 2
  show ?thesis by (simp add: lit_def)
qed

end
